theory Spec2Isabelle
  imports Complex_Main
begin

section \<open>Numbers and arrays of \<open>skdim/lid/_PCA.py\<close>\<close>

text \<open>
  The rules of \<open>lPCA\<close> work on one-dimensional numpy arrays of 64-bit floats. A float is
  modelled by its value: a finite real, one of the two infinities, or NaN. Every arithmetic
  operation rounds its exact result to the nearest binary64 value, ties to even, with gradual
  underflow and with overflow to infinity, as IEEE 754 prescribes. The special values follow
  IEEE 754 as numpy applies it (division by zero gives an infinity or NaN and raises nothing,
  every comparison with NaN is false). The one thing not modelled is the sign of zero:
  \<open>-0.0\<close> and \<open>0.0\<close> are the single value \<open>Fin 0\<close>, which counts as positive zero when it
  divides. A finite value of the type stands for a float only when rounding leaves it as it
  is (\<open>is_float\<close>).
\<close>

datatype npfloat = Fin real | PInf | NInf | NaN

fun isnan :: "npfloat \<Rightarrow> bool" where
  "isnan NaN = True"
| "isnan _ = False"

fun fneg :: "npfloat \<Rightarrow> npfloat" where
  "fneg (Fin a) = Fin (- a)"
| "fneg PInf = NInf"
| "fneg NInf = PInf"
| "fneg NaN = NaN"

subsection \<open>Rounding to binary64\<close>

text \<open>The number of binary digits of a natural number.\<close>

fun bits :: "nat \<Rightarrow> nat" where
  "bits n = (if n = 0 then 0 else Suc (bits (n div 2)))"

declare bits.simps [simp del]

text \<open>\<open>ilog2 a\<close> is the integer \<open>k\<close> with \<open>2^k \<le> a < 2^(k+1)\<close>, for \<open>a > 0\<close>.\<close>

definition ilog2 :: "real \<Rightarrow> int" where
  "ilog2 a = (if 1 \<le> a then int (bits (nat \<lfloor>a\<rfloor>)) - 1
              else - int (bits (nat (\<lceil>1 / a\<rceil> - 1))))"

definition pow2 :: "int \<Rightarrow> real" where
  "pow2 e = (if 0 \<le> e then 2 ^ nat e else 1 / 2 ^ nat (- e))"

text \<open>The nearest integer, a tie going to the even one.\<close>

definition rne :: "real \<Rightarrow> int" where
  "rne q = (let f = \<lfloor>q\<rfloor>; d = q - of_int f
            in if d < 1 / 2 then f else if 1 / 2 < d then f + 1
               else if even f then f else f + 1)"

text \<open>A positive real is rounded to a multiple of \<open>2^e\<close>, where \<open>e\<close> leaves 53 significant
  bits and is at least \<open>-1074\<close> (subnormal numbers keep fewer bits); a result of \<open>2^1024\<close> or
  more is infinity.\<close>

definition rnd_pos :: "real \<Rightarrow> npfloat" where
  "rnd_pos a =
     (let e = max (ilog2 a - 52) (- 1074);
          y = of_int (rne (a / pow2 e)) * pow2 e
      in if 2 ^ 1024 \<le> y then PInf else Fin y)"

definition rnd :: "real \<Rightarrow> npfloat" where
  "rnd x = (if x = 0 then Fin 0 else if 0 < x then rnd_pos x else fneg (rnd_pos (- x)))"

text \<open>A decimal literal of the source, such as \<open>0.05\<close>, is the float nearest to it.\<close>

definition flt :: "real \<Rightarrow> npfloat" where
  "flt x = rnd x"

fun is_float :: "npfloat \<Rightarrow> bool" where
  "is_float (Fin a) = (rnd a = Fin a)"
| "is_float _ = True"

subsection \<open>Arithmetic and comparison\<close>

fun fadd :: "npfloat \<Rightarrow> npfloat \<Rightarrow> npfloat" where
  "fadd (Fin a) (Fin b) = rnd (a + b)"
| "fadd (Fin a) PInf = PInf"
| "fadd (Fin a) NInf = NInf"
| "fadd PInf (Fin b) = PInf"
| "fadd PInf PInf = PInf"
| "fadd PInf NInf = NaN"
| "fadd NInf (Fin b) = NInf"
| "fadd NInf PInf = NaN"
| "fadd NInf NInf = NInf"
| "fadd NaN _ = NaN"
| "fadd _ NaN = NaN"

definition fsub :: "npfloat \<Rightarrow> npfloat \<Rightarrow> npfloat" where
  "fsub a b = fadd a (fneg b)"

text \<open>The sign of a finite or infinite value; zero counts as positive zero.\<close>

fun signed_inf :: "bool \<Rightarrow> npfloat" where
  "signed_inf True = PInf"
| "signed_inf False = NInf"

fun fmul :: "npfloat \<Rightarrow> npfloat \<Rightarrow> npfloat" where
  "fmul (Fin a) (Fin b) = rnd (a * b)"
| "fmul (Fin a) PInf = (if a = 0 then NaN else signed_inf (0 < a))"
| "fmul (Fin a) NInf = (if a = 0 then NaN else signed_inf (a < 0))"
| "fmul PInf (Fin b) = (if b = 0 then NaN else signed_inf (0 < b))"
| "fmul NInf (Fin b) = (if b = 0 then NaN else signed_inf (b < 0))"
| "fmul PInf PInf = PInf"
| "fmul PInf NInf = NInf"
| "fmul NInf PInf = NInf"
| "fmul NInf NInf = PInf"
| "fmul NaN _ = NaN"
| "fmul _ NaN = NaN"

fun fdiv :: "npfloat \<Rightarrow> npfloat \<Rightarrow> npfloat" where
  "fdiv (Fin a) (Fin b) =
     (if b \<noteq> 0 then rnd (a / b)
      else if a = 0 then NaN
      else signed_inf (0 < a))"
| "fdiv (Fin a) PInf = Fin 0"
| "fdiv (Fin a) NInf = Fin 0"
| "fdiv PInf (Fin b) = signed_inf (0 \<le> b)"
| "fdiv NInf (Fin b) = signed_inf (b < 0)"
| "fdiv PInf PInf = NaN"
| "fdiv PInf NInf = NaN"
| "fdiv NInf PInf = NaN"
| "fdiv NInf NInf = NaN"
| "fdiv NaN _ = NaN"
| "fdiv _ NaN = NaN"

text \<open>\<open>a > b\<close> on floats.\<close>

fun fgt :: "npfloat \<Rightarrow> npfloat \<Rightarrow> bool" where
  "fgt (Fin a) (Fin b) = (b < a)"
| "fgt (Fin a) PInf = False"
| "fgt (Fin a) NInf = True"
| "fgt PInf (Fin b) = True"
| "fgt PInf PInf = False"
| "fgt PInf NInf = True"
| "fgt NInf _ = False"
| "fgt NaN _ = False"
| "fgt _ NaN = False"

text \<open>Python's exceptions, as far as these functions raise them.\<close>

datatype py_error = IndexError | ValueError

text \<open>\<open>a[i]\<close>: a negative index counts from the end, an index out of range raises.\<close>

definition py_get :: "'a list \<Rightarrow> int \<Rightarrow> py_error + 'a" where
  "py_get xs i =
     (if 0 \<le> i
      then (if i < int (length xs) then Inr (xs ! nat i) else Inl IndexError)
      else (if - int (length xs) \<le> i then Inr (xs ! nat (int (length xs) + i))
            else Inl IndexError))"

text \<open>Elementwise operations of two arrays of one length, and of an array and a scalar.\<close>

definition arr_div :: "npfloat list \<Rightarrow> npfloat list \<Rightarrow> npfloat list" where
  "arr_div xs ys = map2 fdiv xs ys"

definition arr_div_scalar :: "npfloat list \<Rightarrow> npfloat \<Rightarrow> npfloat list" where
  "arr_div_scalar xs s = map (\<lambda>x. fdiv x s) xs"

definition arr_sub_scalar :: "npfloat list \<Rightarrow> npfloat \<Rightarrow> npfloat list" where
  "arr_sub_scalar xs s = map (\<lambda>x. fsub x s) xs"

definition arr_gt_scalar :: "npfloat list \<Rightarrow> npfloat \<Rightarrow> bool list" where
  "arr_gt_scalar xs s = map (\<lambda>x. fgt x s) xs"

text \<open>Python's builtin \<open>sum\<close> starts from the integer 0 and adds from the left; on an
  array of booleans it counts the true entries.\<close>

definition py_sum :: "npfloat list \<Rightarrow> npfloat" where
  "py_sum xs = foldl fadd (Fin 0) xs"

definition py_sum_bool :: "bool list \<Rightarrow> int" where
  "py_sum_bool bs = foldl (\<lambda>acc b. acc + (if b then 1 else 0)) 0 bs"

text \<open>\<open>np.cumsum\<close>: the running sums, from the left.\<close>

fun cumsum_from :: "npfloat \<Rightarrow> npfloat list \<Rightarrow> npfloat list" where
  "cumsum_from acc [] = []"
| "cumsum_from acc (x # xs) = fadd acc x # cumsum_from (fadd acc x) xs"

fun cumsum :: "npfloat list \<Rightarrow> npfloat list" where
  "cumsum [] = []"
| "cumsum (x # xs) = x # cumsum_from x xs"

text \<open>\<open>np.add.reduce\<close> on a contiguous array of floats, which \<open>np.mean\<close> calls, does not
  add from the left: numpy's pairwise summation adds fewer than 8 entries from the left,
  up to 128 entries in 8 interleaved partial sums that are then combined in pairs, with the
  entries beyond the last full block of 8 added at the end, and splits a longer array in two
  halves (the first a multiple of 8 long).\<close>

function unrolled :: "npfloat list \<Rightarrow> npfloat list \<Rightarrow> npfloat list \<times> npfloat list" where
  "unrolled r xs =
     (if 8 \<le> length xs then unrolled (map2 fadd r (take 8 xs)) (drop 8 xs) else (r, xs))"
  by pat_completeness auto
termination
  by (relation "measure (\<lambda>(r, xs). length xs)") auto

declare unrolled.simps [simp del]

definition combine8 :: "npfloat list \<Rightarrow> npfloat" where
  "combine8 r =
     fadd (fadd (fadd (r ! 0) (r ! 1)) (fadd (r ! 2) (r ! 3)))
          (fadd (fadd (r ! 4) (r ! 5)) (fadd (r ! 6) (r ! 7)))"

function pairwise_sum :: "npfloat list \<Rightarrow> npfloat" where
  "pairwise_sum a =
     (if length a < 8 then foldl fadd (Fin 0) a
      else if length a \<le> 128
      then (case unrolled (take 8 a) (drop 8 a) of (r, rest) \<Rightarrow> foldl fadd (combine8 r) rest)
      else (let n2 = length a div 2 - (length a div 2) mod 8
            in fadd (pairwise_sum (take n2 a)) (pairwise_sum (drop n2 a))))"
  by pat_completeness auto
termination
  by (relation "measure length") auto

declare pairwise_sum.simps [simp del]

text \<open>\<open>np.mean\<close>: that sum over the number of entries (NaN for an empty array).\<close>

definition np_mean :: "npfloat list \<Rightarrow> npfloat" where
  "np_mean xs = fdiv (pairwise_sum xs) (Fin (real (length xs)))"

text \<open>\<open>np.where(mask)[0]\<close>: the indices of the true entries, in increasing order.\<close>

definition np_where :: "bool list \<Rightarrow> nat list" where
  "np_where bs = filter (\<lambda>i. bs ! i) [0..<length bs]"

text \<open>\<open>np.min\<close> of an array of indices: an empty array raises ValueError.\<close>

definition np_min :: "nat list \<Rightarrow> py_error + nat" where
  "np_min xs = (case xs of [] \<Rightarrow> Inl ValueError | y # ys \<Rightarrow> Inr (foldl min y ys))"

text \<open>\<open>np.argmax\<close>: the index of the first occurrence of the largest entry.\<close>

fun argmax_from :: "nat \<Rightarrow> npfloat \<Rightarrow> nat \<Rightarrow> npfloat list \<Rightarrow> nat" where
  "argmax_from bi bv i [] = bi"
| "argmax_from bi bv i (x # xs) =
     (if fgt x bv then argmax_from i x (Suc i) xs else argmax_from bi bv (Suc i) xs)"

fun np_argmax :: "npfloat list \<Rightarrow> nat" where
  "np_argmax [] = 0"
| "np_argmax (x # xs) = argmax_from 0 x 1 xs"

text \<open>\<open>np.nanargmax\<close>: NaN entries are replaced by minus infinity, an array with no entry
  other than NaN (the empty one too) raises ValueError, and the argmax of the rest is taken.\<close>

definition nanargmax :: "npfloat list \<Rightarrow> py_error + nat" where
  "nanargmax a =
     (if list_all isnan a then Inl ValueError
      else Inr (np_argmax (map (\<lambda>x. if isnan x then NInf else x) a)))"

section \<open>The estimator \<open>lPCA\<close>\<close>

record lPCA =
  ver :: string
  alphaRatio :: npfloat
  alphaFO :: npfloat
  alphaFan :: npfloat
  betaFan :: npfloat
  PFan :: npfloat
  verbose :: bool

text \<open>The defaults of \<open>__init__\<close>.\<close>

definition lPCA_default :: lPCA where
  "lPCA_default =
     \<lparr> ver = ''FO'', alphaRatio = flt (5 / 100), alphaFO = flt (5 / 100), alphaFan = Fin 10,
       betaFan = flt (8 / 10), PFan = flt (95 / 100), verbose = True \<rparr>"

text \<open>\<open>explained_var[:-1] / explained_var[1:]\<close>, the ratios of consecutive entries.\<close>

definition gaps_of :: "npfloat list \<Rightarrow> npfloat list" where
  "gaps_of explained_var = arr_div (butlast explained_var) (tl explained_var)"

text \<open>The last four lines of \<open>_FO\<close>, \<open>_maxgap\<close> and \<open>_fan\<close> are the same:
  \<^verbatim>\<open>
  if de-1 < len(gaps):
      return de, gaps[de-1]
  else:
      return de, gaps[-1]
  \<close>\<close>

definition gapAt :: "int \<Rightarrow> npfloat list \<Rightarrow> py_error + int \<times> npfloat" where
  "gapAt de gaps =
     (if de - 1 < int (length gaps)
      then (case py_get gaps (de - 1) of Inl e \<Rightarrow> Inl e | Inr g \<Rightarrow> Inr (de, g))
      else (case py_get gaps (- 1) of Inl e \<Rightarrow> Inl e | Inr g \<Rightarrow> Inr (de, g)))"

definition FO :: "lPCA \<Rightarrow> npfloat list \<Rightarrow> py_error + int \<times> npfloat" where
  "FO self explained_var =
     (case py_get explained_var 0 of
        Inl e \<Rightarrow> Inl e
      | Inr v0 \<Rightarrow>
          (let de = py_sum_bool (arr_gt_scalar explained_var (fmul (alphaFO self) v0));
               gaps = gaps_of explained_var
           in gapAt de gaps))"

definition maxgap :: "npfloat list \<Rightarrow> py_error + int \<times> npfloat" where
  "maxgap explained_var =
     (let gaps = gaps_of explained_var
      in case nanargmax gaps of
           Inl e \<Rightarrow> Inl e
         | Inr k \<Rightarrow> gapAt (int k + 1) gaps)"

definition ratio :: "lPCA \<Rightarrow> npfloat list \<Rightarrow> py_error + int" where
  "ratio self explained_var =
     (let sumexp = cumsum explained_var;
          idx_threshold = np_where (arr_gt_scalar sumexp (alphaRatio self))
      in if length idx_threshold = 0 then Inr (int (length explained_var))
         else (case np_min idx_threshold of Inl e \<Rightarrow> Inl e | Inr m \<Rightarrow> Inr (int m + 1)))"

text \<open>\<open>_fan\<close>, in the order of its lines. Lines 156 and 157 find \<open>r\<close>;
  \<open>[0][0]\<close> on an empty selection raises IndexError.\<close>

definition fan_r :: "lPCA \<Rightarrow> npfloat list \<Rightarrow> py_error + nat" where
  "fan_r self explained_var =
     py_get (np_where (arr_gt_scalar
        (arr_div_scalar (cumsum explained_var) (py_sum explained_var)) (PFan self))) 0"

text \<open>Lines 158 and 159: \<open>sigma\<close> is the mean of the tail from \<open>r\<close> on, and
  \<open>explained_var -= sigma\<close> subtracts it from every entry.\<close>

definition fan_shift :: "npfloat list \<Rightarrow> nat \<Rightarrow> npfloat list" where
  "fan_shift explained_var r =
     (let sigma = np_mean (drop r explained_var) in arr_sub_scalar explained_var sigma)"

text \<open>Lines 161 and 162, on the shifted array: the indices selected by either test,
  concatenated, and their minimum.\<close>

definition fan_idx :: "lPCA \<Rightarrow> npfloat list \<Rightarrow> nat list" where
  "fan_idx self explained_var =
     np_where (arr_gt_scalar (gaps_of explained_var) (alphaFan self)) @
     np_where (arr_gt_scalar
        (arr_div_scalar (cumsum explained_var) (py_sum explained_var)) (betaFan self))"

text \<open>\<open>explained_var -= sigma\<close> on a numpy array writes into the array the caller passed,
  so the model returns, beside the result, the contents of that array after the call. The
  first line raises before the array is touched, \<open>np.min\<close> raises after the shift.\<close>

definition fan :: "lPCA \<Rightarrow> npfloat list \<Rightarrow> (py_error + int \<times> npfloat) \<times> npfloat list" where
  "fan self explained_var =
     (case fan_r self explained_var of
        Inl e \<Rightarrow> (Inl e, explained_var)
      | Inr r \<Rightarrow>
          (let explained_var = fan_shift explained_var r;
               gaps = gaps_of explained_var
           in case np_min (fan_idx self explained_var) of
                Inl e \<Rightarrow> (Inl e, explained_var)
              | Inr m \<Rightarrow> (gapAt (1 + int m) gaps, explained_var)))"

section \<open>The spectrum of the specification\<close>

text \<open>A spectrum is a sequence of finite, non-negative floats in non-increasing order.\<close>

fun nonneg :: "npfloat \<Rightarrow> bool" where
  "nonneg (Fin a) = (0 \<le> a)"
| "nonneg _ = False"

definition spectrum :: "npfloat list \<Rightarrow> bool" where
  "spectrum v \<longleftrightarrow>
     list_all nonneg v \<and> list_all is_float v \<and> sorted_wrt (\<lambda>a b. \<not> fgt b a) v"

text \<open>The spectrum of the examples, \<open>[10, 9, 1, 0.9, 0.1]\<close>.\<close>

definition example_spectrum :: "npfloat list" where
  "example_spectrum = [Fin 10, Fin 9, Fin 1, flt (9 / 10), flt (1 / 10)]"

text \<open>The count of the specification: the number of indices whose entry exceeds the
  threshold \<open>t\<close>.\<close>

definition count_exceeding :: "npfloat list \<Rightarrow> npfloat \<Rightarrow> nat" where
  "count_exceeding v t = card {i. i < length v \<and> fgt (v ! i) t}"

text \<open>A constant spectrum of 21 entries, and the configuration of the specification's
  no-cutoff example: \<open>PFan = 0.95\<close>, \<open>alphaFan = 1e9\<close>, \<open>betaFan = 1.0\<close>.\<close>

definition constant_spectrum :: "npfloat list" where
  "constant_spectrum =
     [Fin 1, Fin 1, Fin 1, Fin 1, Fin 1, Fin 1, Fin 1,
      Fin 1, Fin 1, Fin 1, Fin 1, Fin 1, Fin 1, Fin 1,
      Fin 1, Fin 1, Fin 1, Fin 1, Fin 1, Fin 1, Fin 1]"

definition unreachable_config :: lPCA where
  "unreachable_config = lPCA_default\<lparr>alphaFan := Fin 1000000000, betaFan := Fin 1\<rparr>"

text \<open>The prefix sum of the specification, \<open>sumexp[i] = v[0] + ... + v[i]\<close>.\<close>

fun sumexp_spec :: "npfloat list \<Rightarrow> nat \<Rightarrow> npfloat" where
  "sumexp_spec v 0 = v ! 0"
| "sumexp_spec v (Suc i) = fadd (sumexp_spec v i) (v ! Suc i)"

section \<open>Rounding\<close>

lemmas rnd_eval = rnd_def rnd_pos_def ilog2_def bits.simps rne_def pow2_def flt_def Let_def

lemma pow2_pos: "0 < pow2 e"
  by (simp add: pow2_def)

lemma rne_nonneg: "0 \<le> q \<Longrightarrow> 0 \<le> rne q"
  by (simp add: rne_def Let_def)

lemma rnd_pos_cases:
  assumes "0 < a"
  shows "rnd_pos a = PInf \<or> (\<exists>c\<ge>0. rnd_pos a = Fin c)"
proof -
  let ?e = "max (ilog2 a - 52) (- 1074)"
  let ?y = "of_int (rne (a / pow2 ?e)) * pow2 ?e"
  from assms pow2_pos [of ?e] have "0 \<le> a / pow2 ?e" by simp
  then have "0 \<le> rne (a / pow2 ?e)" by (rule rne_nonneg)
  with pow2_pos [of ?e] have "0 \<le> ?y" by simp
  then show ?thesis by (simp add: rnd_pos_def Let_def)
qed

lemma rnd_nonneg:
  assumes "0 \<le> x"
  shows "rnd x = PInf \<or> (\<exists>c\<ge>0. rnd x = Fin c)"
proof (cases "x = 0")
  case True
  then show ?thesis by (simp add: rnd_def)
next
  case False
  with assms have "0 < x" by simp
  with rnd_pos_cases [of x] show ?thesis by (simp add: rnd_def)
qed

lemma rnd_not_nan: "\<not> isnan (rnd x)"
proof (cases "0 \<le> x")
  case True
  with rnd_nonneg [of x] show ?thesis by auto
next
  case False
  then have "0 < - x" by simp
  with rnd_pos_cases [of "- x"] False show ?thesis by (auto simp: rnd_def)
qed

lemma rnd_nonneg_not_NInf: "0 \<le> x \<Longrightarrow> rnd x \<noteq> NInf"
  using rnd_nonneg [of x] by auto

lemma rnd_zero: "rnd 0 = Fin 0"
  by (simp add: rnd_def)



lemma fmul_one: "is_float x \<Longrightarrow> fmul (Fin 1) x = x"
  by (cases x) simp_all

text \<open>The decimal literals of the examples, as floats.\<close>

lemma flt_values:
  "flt (5 / 100) = Fin (3602879701896397 / 72057594037927936)"
  "flt (8 / 10) = Fin (3602879701896397 / 4503599627370496)"
  "flt (95 / 100) = Fin (4278419646001971 / 4503599627370496)"
  "flt (9 / 10) = Fin (8106479329266893 / 9007199254740992)"
  "flt (1 / 10) = Fin (3602879701896397 / 36028797018963968)"
  by (simp_all add: rnd_eval)

text \<open>Rounding at work: \<open>0.1 + 0.2\<close> is not \<open>0.3\<close>, \<open>1 + 2^-60\<close> is 1, and
  \<open>0.05 * 3\<close> is the float \<open>0.15000000000000002\<close>.\<close>

lemma rounding_examples:
  "fadd (flt (1 / 10)) (flt (2 / 10)) = Fin (1351079888211149 / 4503599627370496)"
  "flt (3 / 10) = Fin (5404319552844595 / 18014398509481984)"
  "fadd (Fin 1) (Fin (1 / 2 ^ 60)) = Fin 1"
  "fmul (flt (5 / 100)) (Fin 3) = Fin (5404319552844596 / 36028797018963968)"
  "flt (15 / 100) = Fin (5404319552844595 / 36028797018963968)"
  by (simp_all add: rnd_eval)

section \<open>Arrays, indices and gaps\<close>

lemma py_get_nth: "i < length xs \<Longrightarrow> py_get xs (int i) = Inr (xs ! i)"
  by (simp add: py_get_def)

lemma py_get_last: "xs \<noteq> [] \<Longrightarrow> py_get xs (- 1) = Inr (last xs)"
proof -
  assume ne: "xs \<noteq> []"
  then have pos: "1 \<le> int (length xs)"
    by (cases xs) simp_all
  then have idx: "nat (int (length xs) + (- 1)) = length xs - 1" by simp
  have "py_get xs (- 1) = Inr (xs ! nat (int (length xs) + (- 1)))"
    using pos by (simp add: py_get_def)
  with idx ne show ?thesis
    by (simp add: last_conv_nth)
qed

lemma py_get_empty: "py_get [] i = Inl IndexError"
  by (simp add: py_get_def)

lemma length_gaps_of: "length (gaps_of v) = length v - 1"
  by (simp add: gaps_of_def arr_div_def)

lemma nth_gaps_of:
  assumes "Suc i < length v"
  shows "gaps_of v ! i = fdiv (v ! i) (v ! Suc i)"
  using assms by (simp add: gaps_of_def arr_div_def nth_butlast nth_tl)

lemma py_sum_bool_add:
  "foldl (\<lambda>acc b. acc + (if b then 1 else 0)) a bs = a + int (length (filter id bs))"
  by (induction bs arbitrary: a) auto

lemma py_sum_bool_count: "py_sum_bool bs = int (length (filter id bs))"
  by (simp add: py_sum_bool_def py_sum_bool_add)

lemma count_gt_card:
  "py_sum_bool (arr_gt_scalar v t) = int (card {i. i < length v \<and> fgt (v ! i) t})"
proof -
  have "length (filter id (map (\<lambda>x. fgt x t) v)) = length (filter (\<lambda>x. fgt x t) v)"
    by (simp add: filter_map comp_def)
  then show ?thesis
    by (simp add: py_sum_bool_count arr_gt_scalar_def length_filter_conv_card)
qed


text \<open>What the shared last lines return: for \<open>1 \<le> de \<le> len(gaps)\<close> the gap
  \<open>gaps[de-1]\<close>; for \<open>de = 0\<close> (index \<open>-1\<close>) and for \<open>de > len(gaps)\<close> the last gap.\<close>

lemma gapAt_value:
  assumes "gaps \<noteq> []" and "0 \<le> de"
  shows "gapAt de gaps =
           Inr (de, if 1 \<le> de \<and> de \<le> int (length gaps) then gaps ! nat (de - 1) else last gaps)"
proof (cases "de = 0")
  case True
  with assms show ?thesis by (simp add: gapAt_def py_get_last)
next
  case False
  with assms have pos: "1 \<le> de" by simp
  show ?thesis
  proof (cases "de \<le> int (length gaps)")
    case True
    with pos have "nat (de - 1) < length gaps" by simp
    then have "py_get gaps (int (nat (de - 1))) = Inr (gaps ! nat (de - 1))"
      by (rule py_get_nth)
    with pos True show ?thesis by (simp add: gapAt_def)
  next
    case False
    with assms pos show ?thesis by (simp add: gapAt_def py_get_last)
  qed
qed

lemma gapAt_empty: "gapAt de [] = Inl IndexError"
  by (simp add: gapAt_def py_get_empty)


section \<open>The order of the floats\<close>

lemma fgt_irrefl: "\<not> fgt x x"
  by (cases x) simp_all

lemma fgt_trans: "fgt x y \<Longrightarrow> fgt y z \<Longrightarrow> fgt x z"
  by (cases x; cases y; cases z) simp_all

lemma fgt_above_not_below:
  "\<not> isnan x \<Longrightarrow> \<not> isnan y \<Longrightarrow> \<not> fgt x y \<Longrightarrow> fgt z y \<Longrightarrow> fgt z x"
  by (cases x; cases y; cases z) simp_all

section \<open>The first largest entry\<close>

text \<open>The loop of \<open>np.argmax\<close> on an array with no NaN: \<open>pre\<close> is the part already
  seen, \<open>bi\<close> the index of the best entry so far.\<close>

lemma argmax_from_first_max:
  assumes "\<forall>x\<in>set a. \<not> isnan x"
    and "a = pre @ xs" and "i = length pre" and "bi < i" and "bv = a ! bi"
    and "\<forall>j<i. \<not> fgt (a ! j) bv" and "\<forall>j<bi. fgt bv (a ! j)"
  shows "argmax_from bi bv i xs < length a
         \<and> (\<forall>j<length a. \<not> fgt (a ! j) (a ! argmax_from bi bv i xs))
         \<and> (\<forall>j<argmax_from bi bv i xs. fgt (a ! argmax_from bi bv i xs) (a ! j))"
  using assms
proof (induction xs arbitrary: pre i bi bv)
  case Nil
  then show ?case by simp
next
  case (Cons x xs)
  have a_split: "a = (pre @ [x]) @ xs" using Cons.prems(2) by simp
  have len: "Suc i = length (pre @ [x])" using Cons.prems(3) by simp
  have ai: "a ! i = x" using Cons.prems(2,3) by simp
  have i_lt: "i < length a" using Cons.prems(2,3) by simp
  show ?case
  proof (cases "fgt x bv")
    case True
    have below: "\<forall>j<Suc i. \<not> fgt (a ! j) x"
    proof (intro allI impI)
      fix j assume "j < Suc i"
      show "\<not> fgt (a ! j) x"
      proof (cases "j = i")
        case True
        then show ?thesis using ai fgt_irrefl by simp
      next
        case False
        with \<open>j < Suc i\<close> have "j < i" by simp
        then have "\<not> fgt (a ! j) bv" using Cons.prems(6) by simp
        then show ?thesis using True fgt_trans by blast
      qed
    qed
    have above: "\<forall>j<i. fgt x (a ! j)"
    proof (intro allI impI)
      fix j assume j: "j < i"
      then have nb: "\<not> fgt (a ! j) bv" using Cons.prems(6) by simp
      from j i_lt have "a ! j \<in> set a" by simp
      then have nj: "\<not> isnan (a ! j)" using Cons.prems(1) by blast
      from Cons.prems(4) i_lt have "a ! bi \<in> set a" by simp
      then have "\<not> isnan bv" using Cons.prems(1,5) by blast
      with nj nb True show "fgt x (a ! j)" using fgt_above_not_below by blast
    qed
    have "argmax_from i x (Suc i) xs < length a
         \<and> (\<forall>j<length a. \<not> fgt (a ! j) (a ! argmax_from i x (Suc i) xs))
         \<and> (\<forall>j<argmax_from i x (Suc i) xs. fgt (a ! argmax_from i x (Suc i) xs) (a ! j))"
      using Cons.prems(1) a_split len _ _ below above
      by (rule Cons.IH) (simp_all add: ai)
    with True show ?thesis by simp
  next
    case False
    have below: "\<forall>j<Suc i. \<not> fgt (a ! j) bv"
      using Cons.prems(6) False ai by (simp add: less_Suc_eq)
    have bi': "bi < Suc i" using Cons.prems(4) by simp
    have "argmax_from bi bv (Suc i) xs < length a
         \<and> (\<forall>j<length a. \<not> fgt (a ! j) (a ! argmax_from bi bv (Suc i) xs))
         \<and> (\<forall>j<argmax_from bi bv (Suc i) xs. fgt (a ! argmax_from bi bv (Suc i) xs) (a ! j))"
      using Cons.prems(1) a_split len bi' Cons.prems(5) below Cons.prems(7)
      by (rule Cons.IH)
    with False show ?thesis by simp
  qed
qed

lemma np_argmax_first_max:
  assumes "a \<noteq> []" and "\<forall>x\<in>set a. \<not> isnan x"
  shows "np_argmax a < length a
         \<and> (\<forall>j<length a. \<not> fgt (a ! j) (a ! np_argmax a))
         \<and> (\<forall>j<np_argmax a. fgt (a ! np_argmax a) (a ! j))"
proof -
  from assms(1) obtain x xs where a: "a = x # xs" by (cases a) auto
  have "argmax_from 0 x 1 xs < length a
         \<and> (\<forall>j<length a. \<not> fgt (a ! j) (a ! argmax_from 0 x 1 xs))
         \<and> (\<forall>j<argmax_from 0 x 1 xs. fgt (a ! argmax_from 0 x 1 xs) (a ! j))"
  proof (rule argmax_from_first_max [OF assms(2), where pre = "[x]"])
    show "a = [x] @ xs" using a by simp
    show "1 = length [x]" by simp
    show "(0::nat) < 1" by simp
    show "x = a ! 0" using a by simp
    show "\<forall>j<1. \<not> fgt (a ! j) x" using a fgt_irrefl by simp
    show "\<forall>j<0. fgt x (a ! j)" by simp
  qed
  then show ?thesis using a by simp
qed

text \<open>\<open>np.nanargmax\<close> raises exactly on an array of NaN only, and its index is in range.\<close>

lemma nanargmax_raises: "list_all isnan a \<Longrightarrow> nanargmax a = Inl ValueError"
  by (simp add: nanargmax_def)

lemma nanargmax_Inl: "nanargmax a = Inl e \<Longrightarrow> e = ValueError \<and> list_all isnan a"
  by (simp add: nanargmax_def split: if_splits)

lemma replaced_no_nan: "\<forall>x\<in>set (map (\<lambda>x. if isnan x then NInf else x) a). \<not> isnan x"
  by auto

lemma nanargmax_Inr: "nanargmax a = Inr k \<Longrightarrow> k < length a"
proof -
  assume r: "nanargmax a = Inr k"
  let ?b = "map (\<lambda>x. if isnan x then NInf else x) a"
  from r have nall: "\<not> list_all isnan a" and k: "k = np_argmax ?b"
    by (auto simp: nanargmax_def split: if_splits)
  from nall have "?b \<noteq> []" by auto
  then have "np_argmax ?b < length ?b"
    using np_argmax_first_max [OF _ replaced_no_nan] by blast
  with k show ?thesis by simp
qed

text \<open>Where no entry is minus infinity, the index returned is that of the first largest
  entry among those that are not NaN.\<close>

lemma nanargmax_first_max:
  assumes nall: "\<not> list_all isnan a" and nninf: "NInf \<notin> set a"
  shows "\<exists>k. nanargmax a = Inr k \<and> k < length a \<and> \<not> isnan (a ! k)
           \<and> (\<forall>j<length a. \<not> isnan (a ! j) \<longrightarrow> \<not> fgt (a ! j) (a ! k))
           \<and> (\<forall>j<k. \<not> isnan (a ! j) \<longrightarrow> fgt (a ! k) (a ! j))"
proof -
  let ?b = "map (\<lambda>x. if isnan x then NInf else x) a"
  let ?k = "np_argmax ?b"
  have run: "nanargmax a = Inr ?k" using nall by (simp add: nanargmax_def)
  from nall have "?b \<noteq> []" by auto
  then have spec: "?k < length ?b \<and> (\<forall>j<length ?b. \<not> fgt (?b ! j) (?b ! ?k))
         \<and> (\<forall>j<?k. fgt (?b ! ?k) (?b ! j))"
    using np_argmax_first_max [OF _ replaced_no_nan] by blast
  have lb: "length ?b = length a" by simp
  from spec have klt: "?k < length a"
    and upper_b: "\<forall>j<length a. \<not> fgt (?b ! j) (?b ! ?k)"
    and first_b: "\<forall>j<?k. fgt (?b ! ?k) (?b ! j)"
    unfolding lb by blast+
  have same: "\<And>j. j < length a \<Longrightarrow> \<not> isnan (a ! j) \<Longrightarrow> ?b ! j = a ! j"
    by simp
  from nall obtain m where m: "m < length a" "\<not> isnan (a ! m)"
    by (auto simp: list_all_length)
  from m(1) have "a ! m \<in> set a" by simp
  with nninf have am1: "a ! m \<noteq> NInf" by auto
  from m(2) have am2: "a ! m \<noteq> NaN" by auto
  have "\<not> fgt (?b ! m) (?b ! ?k)" using upper_b m(1) by blast
  then have "\<not> fgt (a ! m) (?b ! ?k)" using same [OF m] by simp
  then have bk: "?b ! ?k \<noteq> NInf" using am1 am2 by (cases "a ! m") auto
  have knan: "\<not> isnan (a ! ?k)"
  proof
    assume "isnan (a ! ?k)"
    then have "?b ! ?k = NInf" using klt by simp
    with bk show False by simp
  qed
  then have bk_eq: "?b ! ?k = a ! ?k" using klt by simp
  have upper: "\<forall>j<length a. \<not> isnan (a ! j) \<longrightarrow> \<not> fgt (a ! j) (a ! ?k)"
  proof (intro allI impI)
    fix j assume j: "j < length a" "\<not> isnan (a ! j)"
    then have "\<not> fgt (?b ! j) (?b ! ?k)" using upper_b by blast
    then show "\<not> fgt (a ! j) (a ! ?k)" using same [OF j] bk_eq by simp
  qed
  have first: "\<forall>j<?k. \<not> isnan (a ! j) \<longrightarrow> fgt (a ! ?k) (a ! j)"
  proof (intro allI impI)
    fix j assume j: "j < ?k" "\<not> isnan (a ! j)"
    then have jl: "j < length a" using klt by simp
    from j have "fgt (?b ! ?k) (?b ! j)" using first_b by blast
    then show "fgt (a ! ?k) (a ! j)" using same [OF jl j(2)] bk_eq by simp
  qed
  from run klt knan upper first show ?thesis by blast
qed

section \<open>Spectra and their gaps\<close>

lemma nonneg_Fin: "nonneg x \<Longrightarrow> \<exists>a. 0 \<le> a \<and> x = Fin a"
  by (cases x) simp_all

lemma spectrum_nth:
  assumes "spectrum v" and "i < length v"
  shows "\<exists>a. 0 \<le> a \<and> v ! i = Fin a"
proof -
  from assms have "nonneg (v ! i)" by (simp add: spectrum_def list_all_length)
  then show ?thesis by (rule nonneg_Fin)
qed

lemma spectrum_is_float:
  assumes "spectrum v" and "i < length v"
  shows "is_float (v ! i)"
  using assms by (simp add: spectrum_def list_all_length)

lemma spectrum_le_first:
  assumes "spectrum v" and "i < length v"
  shows "\<not> fgt (v ! i) (v ! 0)"
proof (cases "i = 0")
  case True
  then show ?thesis by (simp add: fgt_irrefl)
next
  case False
  then have "0 < i" by simp
  moreover from assms(1) have "sorted_wrt (\<lambda>a b. \<not> fgt b a) v" by (simp add: spectrum_def)
  ultimately show ?thesis using assms(2) by (simp add: sorted_wrt_iff_nth_less)
qed

lemma fdiv_nonneg_not_NInf: "0 \<le> a \<Longrightarrow> 0 \<le> b \<Longrightarrow> fdiv (Fin a) (Fin b) \<noteq> NInf"
  by (simp add: rnd_nonneg_not_NInf)

lemma fdiv_nan_zero:
  assumes "isnan (fdiv (Fin a) (Fin b))"
  shows "a = 0 \<and> b = 0"
proof (cases "b = 0")
  case True
  with assms show ?thesis by (cases "a = 0"; cases "0 < a") simp_all
next
  case False
  with assms rnd_not_nan [of "a / b"] show ?thesis by simp
qed

lemma nonneg_gaps_no_NInf:
  assumes "list_all nonneg v"
  shows "NInf \<notin> set (gaps_of v)"
proof
  assume "NInf \<in> set (gaps_of v)"
  then obtain i where i: "i < length (gaps_of v)" and g: "gaps_of v ! i = NInf"
    by (auto simp: in_set_conv_nth)
  from i have si: "Suc i < length v" by (simp add: length_gaps_of)
  then have "nonneg (v ! i)" and "nonneg (v ! Suc i)"
    using assms by (simp_all add: list_all_length)
  then obtain a b where "0 \<le> a" "v ! i = Fin a" "0 \<le> b" "v ! Suc i = Fin b"
    using nonneg_Fin by blast
  then have "gaps_of v ! i \<noteq> NInf"
    using nth_gaps_of [OF si] fdiv_nonneg_not_NInf by simp
  with g show False by simp
qed

text \<open>The gaps of a spectrum are all NaN exactly when the spectrum is all zero, that is,
  when its first entry is zero.\<close>

lemma spectrum_all_nan_gaps:
  assumes sp: "spectrum v" and len: "2 \<le> length v"
  shows "list_all isnan (gaps_of v) \<longleftrightarrow> v ! 0 = Fin 0"
proof
  assume all: "list_all isnan (gaps_of v)"
  from len have s0: "Suc 0 < length v" by simp
  then have "0 < length (gaps_of v)" by (simp add: length_gaps_of)
  with all have nan0: "isnan (gaps_of v ! 0)" by (simp add: list_all_length)
  from s0 have l0: "0 < length v" by (rule Suc_lessD)
  obtain a where a: "0 \<le> a" "v ! 0 = Fin a"
    using spectrum_nth [OF sp l0] by blast
  obtain b where b: "0 \<le> b" "v ! Suc 0 = Fin b"
    using spectrum_nth [OF sp s0] by blast
  from nan0 have "isnan (fdiv (Fin a) (Fin b))"
    using nth_gaps_of [OF s0] a b by simp
  then have "a = 0" using fdiv_nan_zero by blast
  with a show "v ! 0 = Fin 0" by simp
next
  assume z: "v ! 0 = Fin 0"
  have zero: "v ! i = Fin 0" if "i < length v" for i
  proof -
    from sp that obtain a where a: "0 \<le> a" "v ! i = Fin a"
      using spectrum_nth by blast
    from sp that have "\<not> fgt (v ! i) (v ! 0)" by (rule spectrum_le_first)
    with a z have "a \<le> 0" by simp
    with a show ?thesis by simp
  qed
  show "list_all isnan (gaps_of v)"
    unfolding list_all_length
  proof (intro allI impI)
    fix i assume "i < length (gaps_of v)"
    then have si: "Suc i < length v" by (simp add: length_gaps_of)
    then have "v ! i = Fin 0" and "v ! Suc i = Fin 0" using zero by simp_all
    then show "isnan (gaps_of v ! i)" using nth_gaps_of [OF si] by simp
  qed
qed

section \<open>The rule maxgap\<close>

lemma maxgap_Inr:
  assumes "nanargmax (gaps_of v) = Inr k"
  shows "maxgap v = Inr (int k + 1, gaps_of v ! k)"
proof -
  from assms have "k < length (gaps_of v)" by (rule nanargmax_Inr)
  then have "gapAt (int k + 1) (gaps_of v) = Inr (int k + 1, gaps_of v ! k)"
    by (simp add: gapAt_def py_get_nth)
  with assms show ?thesis by (simp add: maxgap_def)
qed

lemma maxgap_Inl:
  assumes "list_all isnan (gaps_of v)"
  shows "maxgap v = Inl ValueError"
  using nanargmax_raises [OF assms] by (simp add: maxgap_def)

lemma maxgap_cases:
  "(list_all isnan (gaps_of v) \<and> maxgap v = Inl ValueError)
   \<or> (\<exists>k<length (gaps_of v). maxgap v = Inr (int k + 1, gaps_of v ! k))"
proof (cases "nanargmax (gaps_of v)")
  case (Inl e)
  then show ?thesis using nanargmax_Inl maxgap_Inl by blast
next
  case (Inr k)
  then show ?thesis using nanargmax_Inr maxgap_Inr by blast
qed

lemma maxgap_example:
  "gaps_of example_spectrum = [flt (10 / 9), Fin 9, flt (10 / 9), Fin 9]
   \<and> maxgap example_spectrum = Inr (2, Fin 9)"
  by (simp add: example_spectrum_def maxgap_def nanargmax_def py_get_def gaps_of_def
      arr_div_def gapAt_def rnd_eval)

lemma spectrum_example: "spectrum example_spectrum"
  by (simp add: spectrum_def example_spectrum_def rnd_eval)

section \<open>The rule FO\<close>

lemma FO_result:
  assumes "2 \<le> length v"
  shows "FO self v =
     (let de = count_exceeding v (fmul (alphaFO self) (v ! 0)); gaps = gaps_of v
      in Inr (int de, if 1 \<le> de \<and> de \<le> length gaps then gaps ! (de - 1) else last gaps))"
proof -
  let ?de = "count_exceeding v (fmul (alphaFO self) (v ! 0))"
  from assms have "v \<noteq> []" by auto
  then have v0: "py_get v 0 = Inr (v ! 0)"
    by (simp add: py_get_def)
  from assms have ne: "gaps_of v \<noteq> []"
    using length_gaps_of [of v] by auto
  have "gapAt (int ?de) (gaps_of v) =
      Inr (int ?de, if 1 \<le> int ?de \<and> int ?de \<le> int (length (gaps_of v))
                    then gaps_of v ! nat (int ?de - 1) else last (gaps_of v))"
    using ne by (rule gapAt_value) simp
  moreover have "nat (int ?de - 1) = ?de - 1" by simp
  ultimately have "gapAt (int ?de) (gaps_of v) =
      Inr (int ?de, if 1 \<le> ?de \<and> ?de \<le> length (gaps_of v)
                    then gaps_of v ! (?de - 1) else last (gaps_of v))"
    by simp
  then show ?thesis
    by (simp add: FO_def v0 count_gt_card count_exceeding_def Let_def)
qed

lemma FO_example: "FO lPCA_default example_spectrum = Inr (4, Fin 9)"
  by (simp add: example_spectrum_def FO_def lPCA_default_def py_get_def arr_gt_scalar_def
      py_sum_bool_def gaps_of_def arr_div_def gapAt_def rnd_eval)

text \<open>
  C2. On a spectrum of at least two entries the rule FO returns the number of indices
  \<open>i\<close> with \<open>v[i] > alphaFO * v[0]\<close>, paired with the gap at that count, where
  \<open>gaps[i] = v[i] / v[i+1]\<close> for \<open>i = 0..d-2\<close>: the gap is \<open>gaps[de-1]\<close> for
  \<open>1 \<le> de \<le> d-1\<close> and the last gap otherwise. On \<open>[10, 9, 1, 0.9, 0.1]\<close> with
  \<open>alphaFO = 0.05\<close> the dimension is 4.
\<close>

theorem FO_counts_exceeding:
  "(2 \<le> length v \<longrightarrow>
      FO self v =
        (let de = count_exceeding v (fmul (alphaFO self) (v ! 0)); gaps = gaps_of v
         in Inr (int de, if 1 \<le> de \<and> de \<le> length gaps then gaps ! (de - 1) else last gaps)))
   \<and> length (gaps_of v) = length v - 1
   \<and> (\<forall>i. Suc i < length v \<longrightarrow> gaps_of v ! i = fdiv (v ! i) (v ! Suc i))
   \<and> FO lPCA_default example_spectrum = Inr (4, Fin 9)"
  using FO_result [of v self] length_gaps_of [of v] nth_gaps_of [of _ v] FO_example
  by blast

theorem FO_counts_exceeding_witness:
  "2 \<le> length [Fin 3, Fin 2, flt (1 / 10)]
   \<and> FO lPCA_default [Fin 3, Fin 2, flt (1 / 10)] = Inr (2, Fin 20)
   \<and> count_exceeding [Fin 3, Fin 2, flt (1 / 10)] (fmul (flt (5 / 100)) (Fin 3)) = 2"
proof -
  let ?v = "[Fin 3, Fin 2, flt (1 / 10)]"
  have len: "2 \<le> length ?v" by simp
  have run: "FO lPCA_default ?v = Inr (2, Fin 20)"
    by (simp add: FO_def lPCA_default_def py_get_def arr_gt_scalar_def
        py_sum_bool_def gaps_of_def arr_div_def gapAt_def rnd_eval)
  from FO_counts_exceeding [of ?v lPCA_default] len
  have "FO lPCA_default ?v =
        (let de = count_exceeding ?v (fmul (alphaFO lPCA_default) (?v ! 0)); gaps = gaps_of ?v
         in Inr (int de, if 1 \<le> de \<and> de \<le> length gaps then gaps ! (de - 1) else last gaps))"
    by blast
  with run have "int (count_exceeding ?v (fmul (alphaFO lPCA_default) (?v ! 0))) = 2"
    by (simp add: Let_def)
  then have "count_exceeding ?v (fmul (flt (5 / 100)) (Fin 3)) = 2"
    by (simp add: lPCA_default_def)
  with len run show ?thesis by blast
qed

section \<open>FO at the threshold 1\<close>

lemma count_exceeding_first_zero:
  assumes "spectrum v"
  shows "count_exceeding v (v ! 0) = 0"
proof -
  have "{i. i < length v \<and> fgt (v ! i) (v ! 0)} = {}"
    using spectrum_le_first [OF assms] by blast
  then show ?thesis by (simp add: count_exceeding_def)
qed

lemma FO_threshold_one:
  assumes "spectrum v" and "2 \<le> length v" and "alphaFO self = Fin 1"
  shows "FO self v = Inr (0, last (gaps_of v))"
proof -
  from assms(2) have "0 < length v" by auto
  with assms(1) have "is_float (v ! 0)" by (rule spectrum_is_float)
  then have "fmul (alphaFO self) (v ! 0) = v ! 0"
    using assms(3) by (simp add: fmul_one)
  with FO_result [OF assms(2), of self] count_exceeding_first_zero [OF assms(1)]
  show ?thesis by simp
qed

text \<open>
  C8, as the code has it. With \<open>alphaFO = 1.0\<close> the rule FO returns dimension 0 on every
  spectrum of at least two entries: the threshold is the largest eigenvalue itself, the
  comparison is strict, so no entry is counted, the largest one included. The gap returned
  is the last one (index \<open>-1\<close>).
\<close>

theorem FO_alpha_one_counts_nothing:
  "spectrum v \<Longrightarrow> 2 \<le> length v \<Longrightarrow> alphaFO self = Fin 1
     \<Longrightarrow> FO self v = Inr (0, last (gaps_of v))"
  by (rule FO_threshold_one)

theorem FO_alpha_one_counts_nothing_witness:
  "spectrum [Fin 3, Fin 2, Fin 1] \<and> 2 \<le> length [Fin 3, Fin 2, Fin 1]
   \<and> alphaFO (lPCA_default\<lparr>alphaFO := Fin 1\<rparr>) = Fin 1
   \<and> FO (lPCA_default\<lparr>alphaFO := Fin 1\<rparr>) [Fin 3, Fin 2, Fin 1] = Inr (0, Fin 2)"
proof -
  let ?v = "[Fin 3, Fin 2, Fin 1]"
  let ?c = "lPCA_default\<lparr>alphaFO := Fin 1\<rparr>"
  have sp: "spectrum ?v" by (simp add: spectrum_def rnd_eval)
  have len: "2 \<le> length ?v" by simp
  have al: "alphaFO ?c = Fin 1" by simp
  have "last (gaps_of ?v) = Fin 2" by (simp add: gaps_of_def arr_div_def rnd_eval)
  with FO_alpha_one_counts_nothing [OF sp len al] sp len al show ?thesis by simp
qed

text \<open>The claim C8 itself (dimension 1) fails on the spectrum of the examples.\<close>

theorem FO_alpha_one_example:
  "spectrum example_spectrum
   \<and> FO (lPCA_default\<lparr>alphaFO := Fin 1\<rparr>) example_spectrum = Inr (0, Fin 9)"
  by (simp add: spectrum_def example_spectrum_def FO_def lPCA_default_def py_get_def
      arr_gt_scalar_def py_sum_bool_def gaps_of_def arr_div_def gapAt_def rnd_eval)

section \<open>The claims on maxgap\<close>

text \<open>
  C3, as the code has it. For a spectrum of length at least 2 whose gaps
  \<open>gaps[i] = v[i] / v[i+1]\<close> are not all NaN (the spectrum is not all zero), maxgap returns
  \<open>k + 1\<close> and \<open>gaps[k]\<close>, where \<open>k\<close> is the index of the first largest gap among those
  that are not NaN. When every gap is NaN it raises ValueError. On
  \<open>[10, 9, 1, 0.9, 0.1]\<close> the gaps are \<open>[10/9, 9, 10/9, 9]\<close> and the dimension is 2.
\<close>

theorem maxgap_first_largest_gap:
  "(spectrum v \<and> 2 \<le> length v \<and> \<not> list_all isnan (gaps_of v) \<longrightarrow>
      (\<exists>k<length (gaps_of v). maxgap v = Inr (int k + 1, gaps_of v ! k)
          \<and> \<not> isnan (gaps_of v ! k)
          \<and> (\<forall>j<length (gaps_of v). \<not> isnan (gaps_of v ! j)
                 \<longrightarrow> \<not> fgt (gaps_of v ! j) (gaps_of v ! k))
          \<and> (\<forall>j<k. \<not> isnan (gaps_of v ! j) \<longrightarrow> fgt (gaps_of v ! k) (gaps_of v ! j))))
   \<and> (list_all isnan (gaps_of v) \<longrightarrow> maxgap v = Inl ValueError)
   \<and> (spectrum v \<and> 2 \<le> length v \<longrightarrow> (list_all isnan (gaps_of v) \<longleftrightarrow> v ! 0 = Fin 0))
   \<and> length (gaps_of v) = length v - 1
   \<and> (\<forall>i. Suc i < length v \<longrightarrow> gaps_of v ! i = fdiv (v ! i) (v ! Suc i))
   \<and> gaps_of example_spectrum = [flt (10 / 9), Fin 9, flt (10 / 9), Fin 9]
   \<and> maxgap example_spectrum = Inr (2, Fin 9)"
proof -
  have main: "\<exists>k<length (gaps_of v). maxgap v = Inr (int k + 1, gaps_of v ! k)
          \<and> \<not> isnan (gaps_of v ! k)
          \<and> (\<forall>j<length (gaps_of v). \<not> isnan (gaps_of v ! j)
                 \<longrightarrow> \<not> fgt (gaps_of v ! j) (gaps_of v ! k))
          \<and> (\<forall>j<k. \<not> isnan (gaps_of v ! j) \<longrightarrow> fgt (gaps_of v ! k) (gaps_of v ! j))"
    if sp: "spectrum v" and nall: "\<not> list_all isnan (gaps_of v)"
  proof -
    from sp have "NInf \<notin> set (gaps_of v)"
      by (simp add: spectrum_def nonneg_gaps_no_NInf)
    from nanargmax_first_max [OF nall this] obtain k where
      k: "nanargmax (gaps_of v) = Inr k" "k < length (gaps_of v)" "\<not> isnan (gaps_of v ! k)"
        "\<forall>j<length (gaps_of v). \<not> isnan (gaps_of v ! j)
            \<longrightarrow> \<not> fgt (gaps_of v ! j) (gaps_of v ! k)"
        "\<forall>j<k. \<not> isnan (gaps_of v ! j) \<longrightarrow> fgt (gaps_of v ! k) (gaps_of v ! j)"
      by blast
    from maxgap_Inr [OF k(1)] k(2-5) show ?thesis by blast
  qed
  show ?thesis
    using main maxgap_Inl [of v] spectrum_all_nan_gaps [of v] length_gaps_of [of v]
      nth_gaps_of [of _ v] maxgap_example
    by blast
qed

theorem maxgap_first_largest_gap_witness:
  "spectrum example_spectrum \<and> 2 \<le> length example_spectrum
   \<and> \<not> list_all isnan (gaps_of example_spectrum)
   \<and> maxgap example_spectrum = Inr (2, Fin 9)
   \<and> list_all isnan (gaps_of [Fin 0, Fin 0])
   \<and> maxgap [Fin 0, Fin 0] = Inl ValueError"
proof -
  have g: "gaps_of example_spectrum = [flt (10 / 9), Fin 9, flt (10 / 9), Fin 9]"
    using maxgap_first_largest_gap [of example_spectrum] by blast
  have nall: "\<not> list_all isnan (gaps_of example_spectrum)"
    unfolding g by simp
  have len: "2 \<le> length example_spectrum" by (simp add: example_spectrum_def)
  have z: "list_all isnan (gaps_of [Fin 0, Fin 0])"
    by (simp add: gaps_of_def arr_div_def)
  have "maxgap [Fin 0, Fin 0] = Inl ValueError"
    using maxgap_first_largest_gap [of "[Fin 0, Fin 0]"] z by blast
  moreover have "maxgap example_spectrum = Inr (2, Fin 9)"
    using maxgap_first_largest_gap [of example_spectrum] by blast
  ultimately show ?thesis using spectrum_example len nall z by blast
qed

text \<open>The claim C3 itself (maxgap returns on every spectrum of length at least 2) fails on
  the all-zero spectrum, whose only gap is \<open>0/0\<close>.\<close>

theorem maxgap_all_zero_raises:
  "spectrum [Fin 0, Fin 0] \<and> length [Fin 0, Fin 0] = 2
   \<and> gaps_of [Fin 0, Fin 0] = [NaN] \<and> maxgap [Fin 0, Fin 0] = Inl ValueError"
  by (simp add: spectrum_def maxgap_def nanargmax_def gaps_of_def arr_div_def rnd_zero)

text \<open>
  C10. Whatever maxgap returns is between 1 and \<open>d - 1\<close>: it is one more than an index into
  the \<open>d - 1\<close> gaps. It does return on every spectrum of length at least 2 that is not all
  zero. FO and ratio can return \<open>d\<close>.
\<close>

theorem maxgap_below_full_dimension:
  "(\<forall>de g. maxgap v = Inr (de, g) \<longrightarrow> 1 \<le> de \<and> de \<le> int (length v) - 1)
   \<and> (spectrum v \<and> 2 \<le> length v \<and> v ! 0 \<noteq> Fin 0 \<longrightarrow> (\<exists>de g. maxgap v = Inr (de, g)))
   \<and> FO lPCA_default [Fin 10, Fin 9] = Inr (2, flt (10 / 9))
   \<and> ratio lPCA_default [flt (2 / 100), flt (4 / 100)] = Inr 2"
proof -
  have bound: "1 \<le> de \<and> de \<le> int (length v) - 1" if "maxgap v = Inr (de, g)" for de g
  proof -
    from that maxgap_cases [of v] obtain k where
      "k < length (gaps_of v)" "de = int k + 1" by auto
    then show ?thesis by (simp add: length_gaps_of)
  qed
  have returns: "\<exists>de g. maxgap v = Inr (de, g)"
    if "spectrum v" "2 \<le> length v" "v ! 0 \<noteq> Fin 0"
    using that spectrum_all_nan_gaps [of v] maxgap_cases [of v] by blast
  have fo: "FO lPCA_default [Fin 10, Fin 9] = Inr (2, flt (10 / 9))"
    by (simp add: FO_def lPCA_default_def py_get_def arr_gt_scalar_def
        py_sum_bool_def gaps_of_def arr_div_def gapAt_def rnd_eval)
  have ra: "ratio lPCA_default [flt (2 / 100), flt (4 / 100)] = Inr 2"
    by (simp add: ratio_def lPCA_default_def arr_gt_scalar_def np_where_def np_min_def
        rnd_eval)
  from bound returns fo ra show ?thesis by blast
qed

theorem maxgap_below_full_dimension_witness:
  "maxgap example_spectrum = Inr (2, Fin 9) \<and> (1::int) \<le> 2
   \<and> (2::int) \<le> int (length example_spectrum) - 1"
proof -
  have run: "maxgap example_spectrum = Inr (2, Fin 9)"
    by (simp add: maxgap_example)
  with maxgap_below_full_dimension [of example_spectrum]
  have "(1::int) \<le> 2 \<and> (2::int) \<le> int (length example_spectrum) - 1" by blast
  with run show ?thesis by blast
qed

section \<open>Running sums, selections and minima\<close>

lemma length_cumsum_from: "length (cumsum_from acc xs) = length xs"
  by (induction xs arbitrary: acc) simp_all

lemma length_cumsum: "length (cumsum v) = length v"
  by (cases v) (simp_all add: length_cumsum_from)

lemma cumsum_from_nth:
  "i < length xs \<Longrightarrow> cumsum_from acc xs ! i = foldl fadd acc (take (Suc i) xs)"
proof (induction xs arbitrary: acc i)
  case Nil
  then show ?case by simp
next
  case (Cons x xs)
  then show ?case by (cases i) simp_all
qed

lemma sumexp_spec_Cons:
  "i \<le> length xs \<Longrightarrow> sumexp_spec (x # xs) i = foldl fadd x (take i xs)"
proof (induction i)
  case 0
  then show ?case by simp
next
  case (Suc i)
  then have "i < length xs" by simp
  then have "take (Suc i) xs = take i xs @ [xs ! i]"
    by (rule take_Suc_conv_app_nth)
  with Suc show ?case by simp
qed

lemma cumsum_nth:
  assumes "i < length v"
  shows "cumsum v ! i = sumexp_spec v i"
proof (cases v)
  case Nil
  with assms show ?thesis by simp
next
  case (Cons x xs)
  show ?thesis
  proof (cases i)
    case 0
    with Cons show ?thesis by simp
  next
    case (Suc j)
    with assms Cons have j: "j < length xs" by simp
    then have "cumsum_from x xs ! j = foldl fadd x (take (Suc j) xs)"
      by (rule cumsum_from_nth)
    moreover from j have "sumexp_spec (x # xs) (Suc j) = foldl fadd x (take (Suc j) xs)"
      using sumexp_spec_Cons [of "Suc j" xs x] by simp
    ultimately show ?thesis using Cons Suc by simp
  qed
qed


lemma set_np_where: "set (np_where bs) = {i. i < length bs \<and> bs ! i}"
  by (auto simp: np_where_def)

lemma set_where_gt:
  "set (np_where (arr_gt_scalar xs t)) = {i. i < length xs \<and> fgt (xs ! i) t}"
  by (auto simp: set_np_where arr_gt_scalar_def)

lemma foldl_min_least:
  "foldl min (y::nat) ys \<in> set (y # ys) \<and> (\<forall>x\<in>set (y # ys). foldl min y ys \<le> x)"
proof (induction ys arbitrary: y)
  case Nil
  then show ?case by simp
next
  case (Cons z zs)
  from Cons.IH [of "min y z"] show ?case
    by (auto simp: min_def split: if_splits)
qed

lemma np_min_empty: "np_min [] = Inl ValueError"
  by (simp add: np_min_def)

lemma np_min_least:
  assumes "xs \<noteq> []"
  shows "\<exists>m. np_min xs = Inr m \<and> m \<in> set xs \<and> (\<forall>x\<in>set xs. m \<le> x)"
proof -
  from assms obtain y ys where xs: "xs = y # ys" by (cases xs) auto
  have "np_min xs = Inr (foldl min y ys)" by (simp add: xs np_min_def)
  with foldl_min_least [of y ys] xs show ?thesis by blast
qed

section \<open>The rule ratio\<close>

lemma where_cumsum_gt:
  "set (np_where (arr_gt_scalar (cumsum v) t)) = {i. i < length v \<and> fgt (sumexp_spec v i) t}"
proof -
  have "set (np_where (arr_gt_scalar (cumsum v) t))
        = {i. i < length (cumsum v) \<and> fgt (cumsum v ! i) t}"
    by (rule set_where_gt)
  also have "\<dots> = {i. i < length v \<and> fgt (sumexp_spec v i) t}"
    by (rule Collect_cong) (auto simp: length_cumsum cumsum_nth)
  finally show ?thesis .
qed

lemma ratio_unfold:
  "ratio self v =
     (if np_where (arr_gt_scalar (cumsum v) (alphaRatio self)) = []
      then Inr (int (length v))
      else (case np_min (np_where (arr_gt_scalar (cumsum v) (alphaRatio self))) of
              Inl e \<Rightarrow> Inl e | Inr m \<Rightarrow> Inr (int m + 1)))"
  by (simp only: ratio_def Let_def length_0_conv)

lemma ratio_none:
  assumes "\<forall>k<length v. \<not> fgt (sumexp_spec v k) (alphaRatio self)"
  shows "ratio self v = Inr (int (length v))"
proof -
  let ?idx = "np_where (arr_gt_scalar (cumsum v) (alphaRatio self))"
  have "set ?idx = {}"
    unfolding where_cumsum_gt using assms by simp
  then have "?idx = []" by (simp only: set_empty)
  then show ?thesis by (simp add: ratio_unfold)
qed


lemma ratio_some:
  assumes "k < length v" and "fgt (sumexp_spec v k) (alphaRatio self)"
  shows "\<exists>m<length v. ratio self v = Inr (int m + 1)
            \<and> fgt (sumexp_spec v m) (alphaRatio self)
            \<and> (\<forall>j<m. \<not> fgt (sumexp_spec v j) (alphaRatio self))"
proof -
  let ?idx = "np_where (arr_gt_scalar (cumsum v) (alphaRatio self))"
  have sel: "set ?idx = {i. i < length v \<and> fgt (sumexp_spec v i) (alphaRatio self)}"
    by (rule where_cumsum_gt)
  from assms have "k \<in> set ?idx" unfolding sel by simp
  then have ne: "?idx \<noteq> []" by auto
  from np_min_least [OF ne] obtain m where
    m1: "np_min ?idx = Inr m" and m2: "m \<in> set ?idx" and m3: "\<forall>x\<in>set ?idx. m \<le> x"
    by blast
  from m2 have mv: "m < length v \<and> fgt (sumexp_spec v m) (alphaRatio self)"
    unfolding sel by simp
  have first: "\<forall>j<m. \<not> fgt (sumexp_spec v j) (alphaRatio self)"
  proof (intro allI impI notI)
    fix j assume j: "j < m" and g: "fgt (sumexp_spec v j) (alphaRatio self)"
    from j mv have "j < length v" by simp
    with g have "j \<in> set ?idx" unfolding sel by simp
    with m3 have "m \<le> j" by (rule bspec)
    with j show False by simp
  qed
  have "ratio self v = Inr (int m + 1)"
    using ne m1 by (simp add: ratio_unfold)
  with mv first show ?thesis by blast
qed


text \<open>The running sums are sums of floats: on \<open>[1, 2^-60, 2^-60]\<close> with \<open>alphaRatio = 1.0\<close>
  every running sum is the float 1, none exceeds the threshold, and the rule returns 3.\<close>

lemma ratio_rounded_sums:
  "ratio (lPCA_default\<lparr>alphaRatio := Fin 1\<rparr>) [Fin 1, Fin (1 / 2 ^ 60), Fin (1 / 2 ^ 60)]
     = Inr 3"
  by (simp add: ratio_def arr_gt_scalar_def np_where_def np_min_def rnd_eval)

text \<open>
  C4. The rule ratio returns the smallest 1-indexed \<open>de\<close> whose raw prefix sum
  \<open>v[0] + ... + v[de-1]\<close> exceeds \<open>alphaRatio\<close>, and \<open>d\<close> when no prefix sum does. Its result
  is the dimension alone, with no gap, and it never raises.
\<close>

theorem ratio_smallest_prefix:
  "((\<exists>k<length v. fgt (sumexp_spec v k) (alphaRatio self)) \<longrightarrow>
      (\<exists>m<length v. ratio self v = Inr (int m + 1)
          \<and> fgt (sumexp_spec v m) (alphaRatio self)
          \<and> (\<forall>j<m. \<not> fgt (sumexp_spec v j) (alphaRatio self))))
   \<and> ((\<forall>k<length v. \<not> fgt (sumexp_spec v k) (alphaRatio self)) \<longrightarrow>
      ratio self v = Inr (int (length v)))"
proof (intro conjI impI)
  assume "\<exists>k<length v. fgt (sumexp_spec v k) (alphaRatio self)"
  then obtain k where "k < length v" and "fgt (sumexp_spec v k) (alphaRatio self)"
    by blast
  then show "\<exists>m<length v. ratio self v = Inr (int m + 1)
          \<and> fgt (sumexp_spec v m) (alphaRatio self)
          \<and> (\<forall>j<m. \<not> fgt (sumexp_spec v j) (alphaRatio self))"
    by (rule ratio_some)
next
  assume "\<forall>k<length v. \<not> fgt (sumexp_spec v k) (alphaRatio self)"
  then show "ratio self v = Inr (int (length v))"
    by (rule ratio_none)
qed

theorem ratio_smallest_prefix_witness:
  "fgt (sumexp_spec example_spectrum 0) (alphaRatio lPCA_default)
   \<and> ratio lPCA_default example_spectrum = Inr 1
   \<and> \<not> fgt (sumexp_spec [flt (1 / 100), flt (2 / 100)] 0) (alphaRatio lPCA_default)
   \<and> \<not> fgt (sumexp_spec [flt (1 / 100), flt (2 / 100)] 1) (alphaRatio lPCA_default)
   \<and> ratio lPCA_default [flt (1 / 100), flt (2 / 100)] = Inr 2"
proof -
  let ?w = "[flt (1 / 100), flt (2 / 100)]"
  let ?a = "alphaRatio lPCA_default"
  have a: "fgt (sumexp_spec example_spectrum 0) ?a"
    by (simp add: example_spectrum_def lPCA_default_def rnd_eval)
  have len: "0 < length example_spectrum" by (simp add: example_spectrum_def)
  from a len have ex: "\<exists>k<length example_spectrum. fgt (sumexp_spec example_spectrum k) ?a"
    by blast
  from ratio_smallest_prefix [of example_spectrum lPCA_default]
  have "(\<exists>k<length example_spectrum. fgt (sumexp_spec example_spectrum k) ?a) \<longrightarrow>
      (\<exists>m<length example_spectrum. ratio lPCA_default example_spectrum = Inr (int m + 1)
          \<and> fgt (sumexp_spec example_spectrum m) ?a
          \<and> (\<forall>j<m. \<not> fgt (sumexp_spec example_spectrum j) ?a))"
    by (rule conjunct1)
  with ex obtain m where m1: "ratio lPCA_default example_spectrum = Inr (int m + 1)"
    and m2: "\<forall>j<m. \<not> fgt (sumexp_spec example_spectrum j) ?a"
    by blast
  have "m = 0"
  proof (rule ccontr)
    assume "m \<noteq> 0"
    then have "0 < m" by simp
    with m2 a show False by blast
  qed
  with m1 have r1: "ratio lPCA_default example_spectrum = Inr 1" by simp
  have b0: "\<not> fgt (sumexp_spec ?w 0) ?a"
    by (simp add: lPCA_default_def rnd_eval)
  have b1: "\<not> fgt (sumexp_spec ?w 1) ?a"
    by (simp add: lPCA_default_def rnd_eval)
  have none: "\<forall>k<length ?w. \<not> fgt (sumexp_spec ?w k) ?a"
  proof (intro allI impI)
    fix k assume "k < length ?w"
    then have "k = 0 \<or> k = 1" by auto
    with b0 b1 show "\<not> fgt (sumexp_spec ?w k) ?a" by blast
  qed
  from ratio_smallest_prefix [of ?w lPCA_default]
  have "(\<forall>k<length ?w. \<not> fgt (sumexp_spec ?w k) ?a) \<longrightarrow>
      ratio lPCA_default ?w = Inr (int (length ?w))"
    by (rule conjunct2)
  with none have "ratio lPCA_default ?w = Inr (int (length ?w))" by blast
  then have r2: "ratio lPCA_default ?w = Inr 2" by simp
  from a r1 b0 b1 r2 show ?thesis by blast
qed

section \<open>The rule fan, step by step\<close>

lemma length_arr_div_scalar: "length (arr_div_scalar xs s) = length xs"
  by (simp add: arr_div_scalar_def)

lemma where_frac_gt:
  "set (np_where (arr_gt_scalar (arr_div_scalar (cumsum v) s) t))
     = {i. i < length v \<and> fgt (fdiv (sumexp_spec v i) s) t}"
proof -
  have "set (np_where (arr_gt_scalar (arr_div_scalar (cumsum v) s) t))
        = {i. i < length (arr_div_scalar (cumsum v) s) \<and> fgt (arr_div_scalar (cumsum v) s ! i) t}"
    by (rule set_where_gt)
  also have "\<dots> = {i. i < length v \<and> fgt (fdiv (sumexp_spec v i) s) t}"
    by (rule Collect_cong)
       (auto simp: length_arr_div_scalar arr_div_scalar_def length_cumsum cumsum_nth)
  finally show ?thesis .
qed

lemma sorted_np_where: "sorted (np_where bs)"
  by (simp add: np_where_def sorted_wrt_filter)

lemma py_get_first_least:
  assumes "sorted (xs::nat list)" and "xs \<noteq> []"
  shows "\<exists>r. py_get xs 0 = Inr r \<and> r \<in> set xs \<and> (\<forall>x\<in>set xs. r \<le> x)"
proof -
  from assms(2) obtain y ys where xs: "xs = y # ys" by (cases xs) auto
  have "py_get xs 0 = Inr y" by (simp add: xs py_get_def)
  moreover have "y \<in> set xs" by (simp add: xs)
  moreover from assms(1) have "\<forall>x\<in>set xs. y \<le> x" by (auto simp: xs)
  ultimately show ?thesis by blast
qed

lemma fan_r_some:
  assumes "k < length v" and "fgt (fdiv (sumexp_spec v k) (py_sum v)) (PFan self)"
  shows "\<exists>r<length v. fan_r self v = Inr r
            \<and> fgt (fdiv (sumexp_spec v r) (py_sum v)) (PFan self)
            \<and> (\<forall>j<r. \<not> fgt (fdiv (sumexp_spec v j) (py_sum v)) (PFan self))"
proof -
  let ?idx = "np_where (arr_gt_scalar (arr_div_scalar (cumsum v) (py_sum v)) (PFan self))"
  have sel: "set ?idx = {i. i < length v \<and> fgt (fdiv (sumexp_spec v i) (py_sum v)) (PFan self)}"
    by (rule where_frac_gt)
  from assms have "k \<in> set ?idx" unfolding sel by simp
  then have ne: "?idx \<noteq> []" by auto
  from py_get_first_least [OF sorted_np_where ne] obtain r where
    r1: "py_get ?idx 0 = Inr r" and r2: "r \<in> set ?idx" and r3: "\<forall>x\<in>set ?idx. r \<le> x"
    by blast
  from r2 have rv: "r < length v \<and> fgt (fdiv (sumexp_spec v r) (py_sum v)) (PFan self)"
    unfolding sel by simp
  have first: "\<forall>j<r. \<not> fgt (fdiv (sumexp_spec v j) (py_sum v)) (PFan self)"
  proof (intro allI impI notI)
    fix j assume j: "j < r" and g: "fgt (fdiv (sumexp_spec v j) (py_sum v)) (PFan self)"
    from j rv have "j < length v" by simp
    with g have "j \<in> set ?idx" unfolding sel by simp
    with r3 have "r \<le> j" by (rule bspec)
    with j show False by simp
  qed
  from r1 have "fan_r self v = Inr r" by (simp only: fan_r_def)
  with rv first show ?thesis by blast
qed

lemma fan_r_none:
  assumes "\<forall>k<length v. \<not> fgt (fdiv (sumexp_spec v k) (py_sum v)) (PFan self)"
  shows "fan_r self v = Inl IndexError"
proof -
  let ?idx = "np_where (arr_gt_scalar (arr_div_scalar (cumsum v) (py_sum v)) (PFan self))"
  have "set ?idx = {}"
    unfolding where_frac_gt using assms by simp
  then have "?idx = []" by (simp only: set_empty)
  then show ?thesis by (simp add: fan_r_def py_get_empty)
qed

lemma fan_r_Inr:
  assumes "fan_r self v = Inr r"
  shows "r < length v \<and> fgt (fdiv (sumexp_spec v r) (py_sum v)) (PFan self)
         \<and> (\<forall>j<r. \<not> fgt (fdiv (sumexp_spec v j) (py_sum v)) (PFan self))"
proof (cases "\<exists>k<length v. fgt (fdiv (sumexp_spec v k) (py_sum v)) (PFan self)")
  case True
  then obtain k where "k < length v" "fgt (fdiv (sumexp_spec v k) (py_sum v)) (PFan self)"
    by blast
  from fan_r_some [OF this] assms show ?thesis by auto
next
  case False
  then have "fan_r self v = Inl IndexError" using fan_r_none by blast
  with assms show ?thesis by simp
qed


lemma fan_shift_map: "fan_shift v r = map (\<lambda>x. fsub x (np_mean (drop r v))) v"
  by (simp add: fan_shift_def arr_sub_scalar_def Let_def)

lemma set_fan_idx:
  "set (fan_idx self w) =
     {i. i < length (gaps_of w) \<and> fgt (gaps_of w ! i) (alphaFan self)}
     \<union> {i. i < length w \<and> fgt (fdiv (sumexp_spec w i) (py_sum w)) (betaFan self)}"
proof -
  have a: "set (np_where (arr_gt_scalar (gaps_of w) (alphaFan self)))
           = {i. i < length (gaps_of w) \<and> fgt (gaps_of w ! i) (alphaFan self)}"
    by (rule set_where_gt)
  have b: "set (np_where (arr_gt_scalar (arr_div_scalar (cumsum w) (py_sum w)) (betaFan self)))
           = {i. i < length w \<and> fgt (fdiv (sumexp_spec w i) (py_sum w)) (betaFan self)}"
    by (rule where_frac_gt)
  show ?thesis
    unfolding fan_idx_def set_append a b by (rule refl)
qed

lemma fan_unfold:
  assumes "fan_r self v = Inr r"
  shows "fan self v =
     (case np_min (fan_idx self (fan_shift v r)) of
        Inl e \<Rightarrow> (Inl e, fan_shift v r)
      | Inr m \<Rightarrow> (gapAt (1 + int m) (gaps_of (fan_shift v r)), fan_shift v r))"
  using assms by (simp add: fan_def Let_def)


lemma fan_no_cut:
  assumes "fan_r self v = Inr r" and "set (fan_idx self (fan_shift v r)) = {}"
  shows "fan self v = (Inl ValueError, fan_shift v r)"
proof -
  from assms(2) have "fan_idx self (fan_shift v r) = []" by (simp only: set_empty)
  then show ?thesis by (simp add: fan_unfold [OF assms(1)] np_min_empty)
qed



lemma fan_r_unique:
  assumes "r < length v" and "fgt (fdiv (sumexp_spec v r) (py_sum v)) (PFan self)"
    and "\<forall>j<r. \<not> fgt (fdiv (sumexp_spec v j) (py_sum v)) (PFan self)"
  shows "fan_r self v = Inr r"
proof -
  from fan_r_some [OF assms(1,2)] obtain r' where
    r': "fan_r self v = Inr r'" "fgt (fdiv (sumexp_spec v r') (py_sum v)) (PFan self)"
      "\<forall>j<r'. \<not> fgt (fdiv (sumexp_spec v j) (py_sum v)) (PFan self)"
    by blast
  have "\<not> r' < r" using assms(3) r'(2) by blast
  moreover have "\<not> r < r'" using r'(3) assms(2) by blast
  ultimately have "r' = r" by simp
  with r'(1) show ?thesis by simp
qed





lemma fan_idx_empty:
  "set (fan_idx self w) = {} \<longleftrightarrow>
     (\<forall>i<length (gaps_of w). \<not> fgt (gaps_of w ! i) (alphaFan self))
     \<and> (\<forall>i<length w. \<not> fgt (fdiv (sumexp_spec w i) (py_sum w)) (betaFan self))"
  unfolding set_fan_idx by blast

section \<open>Runs of fan\<close>

lemmas fan_eval = fan_def fan_r_def fan_shift_def fan_idx_def np_mean_def py_sum_def
  arr_div_scalar_def arr_gt_scalar_def arr_sub_scalar_def arr_div_def gaps_of_def
  np_where_def np_min_def py_get_def gapAt_def fsub_def lPCA_default_def
  pairwise_sum.simps unrolled.simps combine8_def rnd_eval


lemma fan_constant_r: "fan_r unreachable_config constant_spectrum = Inr 19"
  by (simp add: constant_spectrum_def unreachable_config_def fan_eval)

lemma fan_constant_shift:
  "fan_shift constant_spectrum 19 =
     [Fin 0, Fin 0, Fin 0, Fin 0, Fin 0, Fin 0, Fin 0,
      Fin 0, Fin 0, Fin 0, Fin 0, Fin 0, Fin 0, Fin 0,
      Fin 0, Fin 0, Fin 0, Fin 0, Fin 0, Fin 0, Fin 0]"
  by (simp add: constant_spectrum_def fan_eval)

lemma fan_constant_idx:
  "fan_idx unreachable_config (fan_shift constant_spectrum 19) = []"
  unfolding fan_constant_shift by (simp add: unreachable_config_def fan_eval)


text \<open>Rounding decides the run on \<open>[5, 0, 0]\<close>: \<open>sigma\<close> is the float nearest to \<open>5/3\<close>, the
  shifted entries add up to \<open>-2^-51\<close> and not to 0, only the last cumulative fraction is
  positive, and the rule returns \<open>(3, 1.0)\<close>. On \<open>[0.1, 0.1, 0.1]\<close> with \<open>PFan = 0.3\<close> the
  mean of the three entries is not \<open>0.1\<close>, and the rule returns \<open>(3, 1.0)\<close> too.\<close>

lemma fan_rounded_mean:
  "fst (fan lPCA_default [Fin 5, Fin 0, Fin 0]) = Inr (3, Fin 1)"
  "fst (fan (lPCA_default\<lparr>PFan := flt (3 / 10)\<rparr>) [flt (1 / 10), flt (1 / 10), flt (1 / 10)])
     = Inr (3, Fin 1)"
  by (simp_all add: fan_eval)
section \<open>The claims on fan\<close>




text \<open>
  C6, as the code has it. When \<open>r\<close> is found and neither stopping condition holds at any
  index of the shifted spectrum, the rule fan fails with the ValueError of \<open>np.min\<close> on an
  empty selection. This happens on the constant spectrum of 21 entries with
  \<open>PFan = 0.95\<close>, \<open>alphaFan = 1e9\<close>, \<open>betaFan = 1.0\<close>, where two entries remain from \<open>r = 19\<close>.
\<close>

theorem fan_no_cutoff_raises:
  assumes "r < length v" and "fgt (fdiv (sumexp_spec v r) (py_sum v)) (PFan self)"
    and "\<forall>j<r. \<not> fgt (fdiv (sumexp_spec v j) (py_sum v)) (PFan self)"
    and "w = map (\<lambda>x. fsub x (np_mean (drop r v))) v"
    and "\<forall>i<length (gaps_of w). \<not> fgt (gaps_of w ! i) (alphaFan self)"
    and "\<forall>i<length w. \<not> fgt (fdiv (sumexp_spec w i) (py_sum w)) (betaFan self)"
  shows "fst (fan self v) = Inl ValueError"
proof -
  from assms(1,2,3) have r: "fan_r self v = Inr r" by (rule fan_r_unique)
  from assms(4) have w: "w = fan_shift v r" by (simp add: fan_shift_map)
  from assms(5,6) have "set (fan_idx self w) = {}" by (simp only: fan_idx_empty)
  with w have "set (fan_idx self (fan_shift v r)) = {}" by simp
  from fan_no_cut [OF r this] show ?thesis by simp
qed

theorem fan_no_cutoff_raises_witness:
  "fan_r unreachable_config constant_spectrum = Inr 19
   \<and> length (drop 19 constant_spectrum) = 2
   \<and> fan_idx unreachable_config (fan_shift constant_spectrum 19) = []
   \<and> fst (fan unreachable_config constant_spectrum) = Inl ValueError"
proof -
  let ?w = "fan_shift constant_spectrum 19"
  from fan_r_Inr [OF fan_constant_r]
  have r1: "19 < length constant_spectrum"
    and r2: "fgt (fdiv (sumexp_spec constant_spectrum 19) (py_sum constant_spectrum))
               (PFan unreachable_config)"
    and r3: "\<forall>j<19. \<not> fgt (fdiv (sumexp_spec constant_spectrum j) (py_sum constant_spectrum))
               (PFan unreachable_config)"
    by blast+
  have w: "?w = map (\<lambda>x. fsub x (np_mean (drop 19 constant_spectrum))) constant_spectrum"
    by (rule fan_shift_map)
  have "set (fan_idx unreachable_config ?w) = {}"
    by (simp only: fan_constant_idx set_simps)
  then have g: "\<forall>i<length (gaps_of ?w). \<not> fgt (gaps_of ?w ! i) (alphaFan unreachable_config)"
    and c: "\<forall>i<length ?w. \<not> fgt (fdiv (sumexp_spec ?w i) (py_sum ?w))
               (betaFan unreachable_config)"
    unfolding fan_idx_empty by blast+
  have "fst (fan unreachable_config constant_spectrum) = Inl ValueError"
    using r1 r2 r3 w g c by (rule fan_no_cutoff_raises)
  moreover have "length (drop 19 constant_spectrum) = 2"
    by (simp add: constant_spectrum_def)
  ultimately show ?thesis using fan_constant_r fan_constant_idx by blast
qed

text \<open>The configuration of the example in C6 does not by itself leave both conditions
  unsatisfied: the tail of the shifted spectrum is negative, so its cumulative fraction passes
  1.0 before the last index. On \<open>[16, 2, 1.5, 0.5]\<close>, with two entries remaining from
  \<open>r = 2\<close>, the shifted spectrum is \<open>[15, 1, 0.5, -0.5]\<close>, the fraction at index 2 is
  \<open>16.5 / 16\<close>, and the rule returns dimension 3.\<close>

theorem fan_unreachable_config_returns:
  "fan_r unreachable_config [Fin 16, Fin 2, Fin (3 / 2), Fin (1 / 2)] = Inr 2
   \<and> length (drop 2 [Fin 16, Fin 2, Fin (3 / 2), Fin (1 / 2)]) = 2
   \<and> fan unreachable_config [Fin 16, Fin 2, Fin (3 / 2), Fin (1 / 2)]
       = (Inr (3, Fin (- 1)), [Fin 15, Fin 1, Fin (1 / 2), Fin (- 1 / 2)])"
  by (simp add: unreachable_config_def fan_eval)

text \<open>
  C7 fails on the code: \<open>explained_var -= sigma\<close> writes the shifted values into the array
  the caller passed. After one call with the default configuration on \<open>[5, 4, 1]\<close> the
  caller's array holds \<open>[4, 3, 0]\<close>.
\<close>

theorem fan_overwrites_spectrum:
  "fan lPCA_default [Fin 5, Fin 4, Fin 1] = (Inr (2, PInf), [Fin 4, Fin 3, Fin 0])"
  by (simp add: fan_eval)

text \<open>
  C9 fails on the code for fan: a second call on the same array sees the values the first
  call left there. On \<open>[5, 4, 1]\<close> with the default configuration the first call returns
  \<open>(2, inf)\<close> and the second \<open>(1, 1.6666666666666667)\<close>, the float nearest to \<open>5/3\<close>.
\<close>

theorem fan_second_call_differs:
  "fst (fan lPCA_default [Fin 5, Fin 4, Fin 1]) = Inr (2, PInf)
   \<and> fst (fan lPCA_default (snd (fan lPCA_default [Fin 5, Fin 4, Fin 1]))) = Inr (1, flt (5 / 3))"
  by (simp add: fan_eval)

section \<open>Degenerate spectra\<close>












section \<open>The bounds of the estimates\<close>




end
